theory Spec2Isabelle
  imports
    Main
    "HOL-Library.Word"
    "HOL-Library.Char_ord"
    "HOL-Library.List_Lexorder"
    "HOL-Library.Product_Lexorder"
    "HOL-Library.Multiset"
begin

unbundle bit_operations_syntax

section \<open>The payload: a prefix and a path-keyed file store\<close>

text \<open>
  \<^verbatim>\<open>Payload\<close> holds \<^verbatim>\<open>std::string prefix\<close> and the container \<^verbatim>\<open>files\<close>, which maps a
  key string to a content string. The container is an association list whose order is the
  container's iteration order. That order is left open by the C++ container, so no theorem
  below depends on where a new key is placed; a well-formed store has pairwise distinct keys.
  Strings are byte strings (\<^typ>\<open>char list\<close>). Every member function holds the mutex of the
  payload while it touches the store; the model runs the calls one after the other.
\<close>

type_synonym files_t = "(string \<times> string) list"

record Payload =
  prefix :: string
  files :: files_t

definition keys :: "files_t \<Rightarrow> string list" where
  "keys fs = map fst fs"

text \<open>\<^verbatim>\<open>files.try_emplace(key)\<close>: does nothing when the key is present, otherwise adds
  the key with a default-constructed (empty) string.\<close>

definition try_emplace :: "string \<Rightarrow> files_t \<Rightarrow> files_t" where
  "try_emplace key fs = (if key \<in> set (keys fs) then fs else (key, []) # fs)"

text \<open>
  A \<^verbatim>\<open>std::string *\<close> into the container. The container keeps one node per key and never
  moves it, so the address of a content slot is identified with the key of its node.
\<close>

datatype slot = Slot string

text \<open>\<^verbatim>\<open>&files[key]\<close>: \<^verbatim>\<open>operator[]\<close> adds an empty slot for an absent key, and yields
  the slot of the key.\<close>

definition subscript :: "string \<Rightarrow> files_t \<Rightarrow> slot \<times> files_t" where
  "subscript key fs = (Slot key, if key \<in> set (keys fs) then fs else (key, []) # fs)"

text \<open>Reading \<^verbatim>\<open>files[key]\<close> as a value: the content of the slot, which is the empty
  string when \<^verbatim>\<open>operator[]\<close> has just created it.\<close>

definition content :: "files_t \<Rightarrow> string \<Rightarrow> string" where
  "content fs key = (case map_of fs key of Some v \<Rightarrow> v | None \<Rightarrow> [])"

text \<open>Reading and assigning through a \<^verbatim>\<open>std::string *\<close> obtained from the store.\<close>

fun deref :: "files_t \<Rightarrow> slot \<Rightarrow> string" where
  "deref fs (Slot key) = content fs key"

definition assign :: "string \<Rightarrow> string \<Rightarrow> files_t \<Rightarrow> files_t" where
  "assign key v fs = map (\<lambda>(k, c). if k = key then (k, v) else (k, c)) fs"

fun store :: "slot \<Rightarrow> string \<Rightarrow> files_t \<Rightarrow> files_t" where
  "store (Slot key) v fs = assign key v fs"

subsection \<open>getFile\<close>

text \<open>\<^verbatim>\<open>Payload::getFile(const std::string &fName)\<close>.\<close>

definition getFile :: "string \<Rightarrow> Payload \<Rightarrow> slot \<times> Payload" where
  "getFile fName p =
     (let key = prefix p @ fName;
          fs = try_emplace key (files p);
          (h, fs') = subscript key fs
      in (h, p\<lparr>files := fs'\<rparr>))"

text \<open>
  A \<^verbatim>\<open>const char *\<close> argument is the memory it points to; the string it denotes ends
  before the first NUL byte. \<^verbatim>\<open>prefix + fName\<close> with a \<^verbatim>\<open>const char *\<close> appends exactly
  those bytes.
\<close>

definition c_str :: "string \<Rightarrow> string" where
  "c_str s = takeWhile (\<lambda>c. c \<noteq> CHR 0x00) s"

text \<open>\<^verbatim>\<open>Payload::getFile(const char *fName)\<close>.\<close>

definition getFile_cstr :: "string \<Rightarrow> Payload \<Rightarrow> slot \<times> Payload" where
  "getFile_cstr fName p =
     (let key = prefix p @ c_str fName;
          fs = try_emplace key (files p);
          (h, fs') = subscript key fs
      in (h, p\<lparr>files := fs'\<rparr>))"

section \<open>Paths\<close>

text \<open>
  \<^verbatim>\<open>std::filesystem::path\<close> on a POSIX host keeps the string it was built from; the
  directory separator is \<^verbatim>\<open>/\<close> and there is no root name. A path decomposes into an
  optional root directory (one or more leading separators) and the elements of its relative
  path: the file names between runs of separators, and one empty element at the end when the
  path ends in a separator.
\<close>

definition is_sep :: "char \<Rightarrow> bool" where
  "is_sep c = (c = CHR ''/'')"

definition has_root_directory :: "string \<Rightarrow> bool" where
  "has_root_directory s = (case s of [] \<Rightarrow> False | c # _ \<Rightarrow> is_sep c)"

text \<open>Splitting at every separator; a run of separators gives empty pieces.\<close>

fun pieces :: "string \<Rightarrow> string \<Rightarrow> string list" where
  "pieces cur [] = [rev cur]"
| "pieces cur (c # cs) = (if is_sep c then rev cur # pieces [] cs else pieces (c # cur) cs)"

definition path_elems :: "string \<Rightarrow> string list" where
  "path_elems s =
     (let r = dropWhile is_sep s in
      if r = [] then []
      else let ps = pieces [] r in filter (\<lambda>e. e \<noteq> []) (butlast ps) @ [last ps])"

text \<open>
  \<^verbatim>\<open>path::compare\<close>: a path without root directory is smaller than one with; otherwise
  the element sequences are compared lexicographically, each element as a byte string. The
  pair below, ordered lexicographically, is that comparison; \<^verbatim>\<open>operator<\<close> on paths is
  \<open>path_key p < path_key q\<close>.
\<close>

definition path_key :: "string \<Rightarrow> bool \<times> string list" where
  "path_key s = (has_root_directory s, path_elems s)"

definition path_less :: "string \<Rightarrow> string \<Rightarrow> bool" where
  "path_less p q = (path_key p < path_key q)"

text \<open>\<^verbatim>\<open>filename()\<close>: the last element of the path, the bytes after its last separator.\<close>

definition filename :: "string \<Rightarrow> string" where
  "filename s = rev (takeWhile (\<lambda>c. \<not> is_sep c) (rev s))"

text \<open>
  \<^verbatim>\<open>extension()\<close>: the suffix of the file name from its last period on, unless the file
  name is \<^verbatim>\<open>.\<close> or \<^verbatim>\<open>..\<close> or its only period is the leading one; then it is empty.
\<close>

definition extension :: "string \<Rightarrow> string" where
  "extension s =
     (let f = filename s in
      if f = ''.'' \<or> f = ''..'' \<or> CHR ''.'' \<notin> set (tl f) then []
      else CHR ''.'' # rev (takeWhile (\<lambda>c. c \<noteq> CHR ''.'') (rev f)))"

definition has_extension :: "string \<Rightarrow> bool" where
  "has_extension s = (extension s \<noteq> [])"

subsection \<open>orderedFileNames\<close>

text \<open>
  \<^verbatim>\<open>Payload::orderedFileNames\<close> copies every key into a \<^verbatim>\<open>std::vector<fs::path>\<close> and
  calls \<^verbatim>\<open>std::sort\<close> on it, which orders by \<^verbatim>\<open>operator<\<close> of paths. \<^verbatim>\<open>std::sort\<close> leaves
  the order of elements that compare equal open; the model sorts by insertion, and the
  theorems about the result's order assume that no two keys compare equal.
\<close>

definition orderedFileNames :: "Payload \<Rightarrow> string list" where
  "orderedFileNames p = sort_key path_key (keys (files p))"

section \<open>Errors\<close>

text \<open>
  Two ways in which a call does not return normally: the exception that the JSON library
  throws when asked to serialize a string that is not UTF-8 (\<^verbatim>\<open>type_error.316\<close>), and
  behaviour that C++ leaves undefined (reading outside a string, reading a variable that
  was never written).
\<close>

datatype error = type_error_316 | undefined_behaviour

definition and_then :: "error + 'a \<Rightarrow> ('a \<Rightarrow> error + 'b) \<Rightarrow> error + 'b" where
  "and_then r f = (case r of Inl e \<Rightarrow> Inl e | Inr x \<Rightarrow> f x)"

definition newline :: char where
  "newline = CHR 0x0A"

section \<open>The manifest\<close>

subsection \<open>The JSON object and its compact serialization\<close>

text \<open>
  \<^verbatim>\<open>nlohmann::json manifest\<close> is used as an object with string members. The object keeps
  its members in a \<^verbatim>\<open>std::map\<close>, ordered by key; \<^verbatim>\<open>manifest[k] = v\<close> adds the member or
  replaces its value.
\<close>

type_synonym json = "(string \<times> string) list"

definition json_set :: "string \<Rightarrow> string \<Rightarrow> json \<Rightarrow> json" where
  "json_set k v ms = insort_key fst (k, v) (filter (\<lambda>m. fst m \<noteq> k) ms)"

text \<open>
  \<^verbatim>\<open>dump()\<close> without arguments writes no white space. A string is written between double
  quotes; the quote, the backslash and the control characters are escaped, every other
  well-formed UTF-8 sequence is copied, and a byte that does not continue a well-formed
  UTF-8 sequence makes \<^verbatim>\<open>dump\<close> throw.
\<close>

definition hex_digit :: "nat \<Rightarrow> char" where
  "hex_digit n = (''0123456789abcdef'') ! (n mod 16)"

definition escape_ascii :: "char \<Rightarrow> string" where
  "escape_ascii c =
     (let n = (of_char c :: nat) in
      if n = 0x08 then [CHR 0x5C, CHR ''b'']
      else if n = 0x09 then [CHR 0x5C, CHR ''t'']
      else if n = 0x0A then [CHR 0x5C, CHR ''n'']
      else if n = 0x0C then [CHR 0x5C, CHR ''f'']
      else if n = 0x0D then [CHR 0x5C, CHR ''r'']
      else if n = 0x22 then [CHR 0x5C, CHR 0x22]
      else if n = 0x5C then [CHR 0x5C, CHR 0x5C]
      else if n \<le> 0x1F then [CHR 0x5C, CHR ''u'', CHR ''0'', CHR ''0'', hex_digit (n div 16), hex_digit n]
      else [c])"

definition cont :: "nat \<Rightarrow> nat \<Rightarrow> char \<Rightarrow> bool" where
  "cont lo hi c = (lo \<le> (of_char c :: nat) \<and> (of_char c :: nat) \<le> hi)"

text \<open>The number of continuation bytes that follow the lead byte \<open>n \<ge> 0x80\<close> of a
  well-formed sequence, when the bytes after it are such bytes.\<close>

definition utf8_tail :: "nat \<Rightarrow> string \<Rightarrow> nat option" where
  "utf8_tail n cs =
     (case cs of
        b1 # b2 # b3 # _ \<Rightarrow>
          if 0xC2 \<le> n \<and> n \<le> 0xDF \<and> cont 0x80 0xBF b1 then Some 1
          else if n = 0xE0 \<and> cont 0xA0 0xBF b1 \<and> cont 0x80 0xBF b2 then Some 2
          else if n = 0xED \<and> cont 0x80 0x9F b1 \<and> cont 0x80 0xBF b2 then Some 2
          else if 0xE1 \<le> n \<and> n \<le> 0xEF \<and> n \<noteq> 0xED \<and> cont 0x80 0xBF b1 \<and> cont 0x80 0xBF b2
            then Some 2
          else if n = 0xF0 \<and> cont 0x90 0xBF b1 \<and> cont 0x80 0xBF b2 \<and> cont 0x80 0xBF b3 then Some 3
          else if 0xF1 \<le> n \<and> n \<le> 0xF3 \<and> cont 0x80 0xBF b1 \<and> cont 0x80 0xBF b2 \<and> cont 0x80 0xBF b3
            then Some 3
          else if n = 0xF4 \<and> cont 0x80 0x8F b1 \<and> cont 0x80 0xBF b2 \<and> cont 0x80 0xBF b3 then Some 3
          else None
      | [b1, b2] \<Rightarrow>
          if 0xC2 \<le> n \<and> n \<le> 0xDF \<and> cont 0x80 0xBF b1 then Some 1
          else if n = 0xE0 \<and> cont 0xA0 0xBF b1 \<and> cont 0x80 0xBF b2 then Some 2
          else if n = 0xED \<and> cont 0x80 0x9F b1 \<and> cont 0x80 0xBF b2 then Some 2
          else if 0xE1 \<le> n \<and> n \<le> 0xEF \<and> n \<noteq> 0xED \<and> cont 0x80 0xBF b1 \<and> cont 0x80 0xBF b2
            then Some 2
          else None
      | [b1] \<Rightarrow> if 0xC2 \<le> n \<and> n \<le> 0xDF \<and> cont 0x80 0xBF b1 then Some 1 else None
      | [] \<Rightarrow> None)"

fun dump_escaped :: "string \<Rightarrow> error + string" where
  "dump_escaped [] = Inr []"
| "dump_escaped (c # cs) =
     (if (of_char c :: nat) < 0x80
      then and_then (dump_escaped cs) (\<lambda>r. Inr (escape_ascii c @ r))
      else case utf8_tail (of_char c) cs of
             None \<Rightarrow> Inl type_error_316
           | Some k \<Rightarrow> and_then (dump_escaped (drop k cs)) (\<lambda>r. Inr (c # take k cs @ r)))"

definition dump_string :: "string \<Rightarrow> error + string" where
  "dump_string s = and_then (dump_escaped s) (\<lambda>e. Inr ([CHR 0x22] @ e @ [CHR 0x22]))"

definition dump_member :: "string \<times> string \<Rightarrow> error + string" where
  "dump_member m =
     and_then (dump_string (fst m)) (\<lambda>k.
     and_then (dump_string (snd m)) (\<lambda>v. Inr (k @ '':'' @ v)))"

fun dump_members :: "json \<Rightarrow> error + string" where
  "dump_members [] = Inr []"
| "dump_members [m] = dump_member m"
| "dump_members (m # ms) =
     and_then (dump_member m) (\<lambda>a.
     and_then (dump_members ms) (\<lambda>b. Inr (a @ '','' @ b)))"

definition dump :: "json \<Rightarrow> error + string" where
  "dump j = and_then (dump_members j) (\<lambda>b. Inr (''{'' @ b @ ''}''))"

subsection \<open>addManifest\<close>

definition manifest_fname :: string where
  "manifest_fname = ''manifest/manifest.json''"

text \<open>\<^verbatim>\<open>files[key] = v\<close>: the slot of the key, created when absent, is assigned.\<close>

definition put :: "string \<Rightarrow> string \<Rightarrow> files_t \<Rightarrow> files_t" where
  "put key v fs = (let (h, fs') = subscript key fs in store h v fs')"

text \<open>
  \<^verbatim>\<open>ZipPayload::addManifest\<close>. \<^verbatim>\<open>QSSC_VERSION\<close> is a macro of the build configuration
  (\<^verbatim>\<open>Config.h\<close>); it is a parameter here. The right-hand side of the assignment is
  evaluated first, so nothing is stored when \<^verbatim>\<open>dump\<close> throws.
\<close>

definition addManifest :: "string \<Rightarrow> Payload \<Rightarrow> error + Payload" where
  "addManifest QSSC_VERSION p =
     (let manifest = [];
          manifest = json_set ''version'' QSSC_VERSION manifest;
          manifest = json_set ''contents_path'' (prefix p) manifest
      in and_then (dump manifest) (\<lambda>d.
           Inr (p\<lparr>files := put manifest_fname (d @ [newline]) (files p)\<rparr>)))"

section \<open>The plain-text dump\<close>

definition separator :: string where
  "separator = replicate 42 (CHR ''-'') @ [newline]"

text \<open>
  The second loop of \<^verbatim>\<open>ZipPayload::writePlain(llvm::raw_ostream &)\<close>. The stream is the
  sequence of bytes written to it. \<^verbatim>\<open>*(files[fName].rbegin())\<close> is the last byte of the
  content; on an empty content \<^verbatim>\<open>rbegin()\<close> equals \<^verbatim>\<open>rend()\<close> and reading through it is
  undefined. The names come from the store, so \<^verbatim>\<open>files[fName]\<close> creates no slot.
\<close>

fun writePlain_files :: "files_t \<Rightarrow> string list \<Rightarrow> string \<Rightarrow> error + string" where
  "writePlain_files fs [] stream = Inr stream"
| "writePlain_files fs (fName # rest) stream =
     (let stream = stream @ ''File: '' @ fName @ [newline];
          stream = stream @ content fs fName
      in if content fs fName = [] then Inl undefined_behaviour
         else let stream = (if last (content fs fName) \<noteq> newline then stream @ [newline]
                            else stream);
                  stream = stream @ separator
              in writePlain_files fs rest stream)"

definition writePlain :: "Payload \<Rightarrow> string \<Rightarrow> error + string" where
  "writePlain p stream =
     (let orderedNames = orderedFileNames p;
          stream = stream @ separator;
          stream = stream @ ''Plaintext payload: '' @ prefix p @ [newline];
          stream = stream @ separator;
          stream = stream @ ''Manifest:'' @ [newline];
          stream = foldl (\<lambda>s fName. s @ fName @ [newline]) stream orderedNames;
          stream = stream @ separator
      in writePlain_files (files p) orderedNames stream)"

section \<open>The archive\<close>

subsection \<open>The archive library\<close>

text \<open>
  The archive under construction (\<^verbatim>\<open>zip_t\<close>) is the list of its entries; the index of an
  entry is its position. An entry has a name, its data, and the external attributes: the
  tag of the operating system that the attribute word belongs to, and the 32-bit word.
\<close>

record zip_entry =
  ze_name :: string
  ze_data :: string
  ze_opsys :: "8 word"
  ze_attributes :: "32 word"

type_synonym zip_t = "zip_entry list"

text \<open>
  What the library and the allocator do in one run is not decided by the program; it is the
  parameter \<open>lz\<close>: whether the in-memory source of the archive can be created, whether the
  archive opens on it, for each key of the store whether its content can be wrapped as a
  source and whether the entry can be added, the external attributes that a newly added
  entry reports, whether closing succeeds, the bytes of the closed archive, and whether
  \<^verbatim>\<open>malloc\<close> returns a buffer of a given size.
\<close>

record libzip =
  archive_source_ok :: bool
  open_ok :: bool
  file_source_ok :: "string \<Rightarrow> bool"
  file_add_ok :: "string \<Rightarrow> bool"
  new_opsys :: "8 word"
  new_attributes :: "32 word"
  close_ok :: "zip_t \<Rightarrow> bool"
  archive_bytes :: "zip_t \<Rightarrow> string"
  malloc_ok :: "nat \<Rightarrow> bool"

text \<open>Constants of \<^verbatim>\<open>zip.h\<close> and \<^verbatim>\<open>sys/stat.h\<close>: the permission bits are octal
  \<^verbatim>\<open>0100\<close>, \<^verbatim>\<open>020\<close> and \<^verbatim>\<open>02\<close>.\<close>

definition ZIP_OPSYS_UNIX :: "8 word" where
  "ZIP_OPSYS_UNIX = 0x03"

definition S_IXUSR :: "32 word" where
  "S_IXUSR = 0x40"

definition S_IWGRP :: "32 word" where
  "S_IWGRP = 0x10"

definition S_IWOTH :: "32 word" where
  "S_IWOTH = 0x02"

definition UINT32_MAX :: "32 word" where
  "UINT32_MAX = 0xFFFFFFFF"

text \<open>
  \<^verbatim>\<open>zip_file_get_external_attributes\<close> fails on an index that is not in the archive and
  then writes neither output.
\<close>

definition zip_file_get_external_attributes :: "zip_t \<Rightarrow> nat \<Rightarrow> (8 word \<times> 32 word) option" where
  "zip_file_get_external_attributes za idx =
     (if idx < length za then Some (ze_opsys (za ! idx), ze_attributes (za ! idx)) else None)"

definition zip_file_set_external_attributes ::
    "zip_t \<Rightarrow> nat \<Rightarrow> 8 word \<Rightarrow> 32 word \<Rightarrow> zip_t" where
  "zip_file_set_external_attributes za idx opsys attributes =
     (if idx < length za
      then za[idx := (za ! idx)\<lparr>ze_opsys := opsys, ze_attributes := attributes\<rparr>]
      else za)"

text \<open>
  \<^verbatim>\<open>zip_file_add\<close> with \<^verbatim>\<open>ZIP_FL_OVERWRITE\<close>, for the key \<open>fName\<close> of the store. The name
  of the entry is \<^verbatim>\<open>fName.c_str()\<close>, a C string. An entry of that name has its data
  replaced; otherwise a new entry is appended. The result is the index of the entry, or
  \<open>None\<close> for the negative result of a failure.
\<close>

fun zip_name_locate :: "zip_t \<Rightarrow> string \<Rightarrow> nat option" where
  "zip_name_locate [] n = None"
| "zip_name_locate (e # es) n =
     (if ze_name e = n then Some 0 else map_option Suc (zip_name_locate es n))"

definition zip_file_add :: "libzip \<Rightarrow> zip_t \<Rightarrow> string \<Rightarrow> string \<Rightarrow> (nat \<times> zip_t) option" where
  "zip_file_add lz za fName bytes =
     (if \<not> file_add_ok lz fName then None
      else case zip_name_locate za (c_str fName) of
             Some i \<Rightarrow> Some (i, za[i := (za ! i)\<lparr>ze_data := bytes\<rparr>])
           | None \<Rightarrow>
               Some (length za,
                     za @ [\<lparr>ze_name = c_str fName, ze_data = bytes,
                            ze_opsys = new_opsys lz, ze_attributes = new_attributes lz\<rparr>]))"

subsection \<open>setFilePermissions\<close>

text \<open>
  The local \<^verbatim>\<open>opsys\<close> and \<^verbatim>\<open>attributes\<close> are written only by a successful
  \<^verbatim>\<open>zip_file_get_external_attributes\<close>; after a failed one they are read uninitialized.
\<close>

definition setFilePermissions :: "nat \<Rightarrow> string \<Rightarrow> zip_t \<Rightarrow> error + zip_t" where
  "setFilePermissions fileIndex fName new_archive =
     (case zip_file_get_external_attributes new_archive fileIndex of
        None \<Rightarrow> Inl undefined_behaviour
      | Some (opsys, attributes) \<Rightarrow>
          if opsys = ZIP_OPSYS_UNIX then
            let mask = UINT32_MAX;
                mask = mask XOR (push_bit 16 S_IWGRP);
                mask = mask XOR (push_bit 16 S_IWOTH);
                attributes = attributes AND mask;
                attributes = (if has_extension fName \<and> extension fName = ''.sh''
                              then attributes OR (push_bit 16 S_IXUSR) else attributes)
            in Inr (zip_file_set_external_attributes new_archive fileIndex opsys attributes)
          else Inr new_archive)"

subsection \<open>writeZip\<close>

text \<open>
  The streams: \<open>sink\<close> is the sequence of bytes written to the \<^verbatim>\<open>stream\<close> argument,
  \<open>outs\<close> and \<open>errs\<close> are the messages written to \<^verbatim>\<open>llvm::outs()\<close> and
  \<^verbatim>\<open>llvm::errs()\<close>, three different streams. A message is kept as its fixed text and the
  values printed in it; the library's description of the error, which ends some of them, is
  left out. Flushing the sink does not change the bytes it has received.
\<close>

datatype msg =
    Writing_zip_to_stream
  | Zip_buffer_created
  | Adding_file string nat
  | Zip_buffer_is_of_size nat
  | Cant_create_zip_source_for_new_archive
  | Cant_create_open_an_archive
  | Cant_create_zip_source_for string
  | Problem_adding_file string
  | Problem_closing_new_zip_archive
  | Unable_to_allocate_output_buffer

record world =
  sink :: string
  outs :: "msg list"
  errs :: "msg list"

definition to_outs :: "msg \<Rightarrow> world \<Rightarrow> world" where
  "to_outs m w = w\<lparr>outs := outs w @ [m]\<rparr>"

definition to_errs :: "msg \<Rightarrow> world \<Rightarrow> world" where
  "to_errs m w = w\<lparr>errs := errs w @ [m]\<rparr>"

text \<open>The loop over \<^verbatim>\<open>orderedNames\<close>; \<^verbatim>\<open>continue\<close> goes on with the rest of the names.\<close>

fun add_files :: "libzip \<Rightarrow> files_t \<Rightarrow> string list \<Rightarrow> zip_t \<times> world \<Rightarrow> error + zip_t \<times> world" where
  "add_files lz fs [] (new_archive, w) = Inr (new_archive, w)"
| "add_files lz fs (fName # rest) (new_archive, w) =
     (let w = to_outs (Adding_file fName (length (content fs fName))) w in
      if \<not> file_source_ok lz fName
      then add_files lz fs rest (new_archive, to_errs (Cant_create_zip_source_for fName) w)
      else case zip_file_add lz new_archive fName (content fs fName) of
             None \<Rightarrow> add_files lz fs rest (new_archive, to_errs (Problem_adding_file fName) w)
           | Some (fileIndex, new_archive) \<Rightarrow>
               and_then (setFilePermissions fileIndex fName new_archive)
                 (\<lambda>new_archive. add_files lz fs rest (new_archive, w)))"

text \<open>
  \<^verbatim>\<open>ZipPayload::writeZip(llvm::raw_ostream &)\<close>. The function is \<^verbatim>\<open>void\<close>: what it returns
  is the unit value, next to the payload and the streams as it leaves them. The calls that
  read the closed archive back (open, seek, tell, read) are not checked by the program and
  are taken to deliver the bytes of the archive.
\<close>

definition writeZip :: "libzip \<Rightarrow> string \<Rightarrow> Payload \<Rightarrow> world \<Rightarrow> error + unit \<times> Payload \<times> world" where
  "writeZip lz QSSC_VERSION p w =
     (let w = to_outs Writing_zip_to_stream w in
      and_then (addManifest QSSC_VERSION p) (\<lambda>p.
        if \<not> archive_source_ok lz
        then Inr ((), p, to_errs Cant_create_zip_source_for_new_archive w)
        else if \<not> open_ok lz
        then Inr ((), p, to_errs Cant_create_open_an_archive w)
        else
          let w = to_outs Zip_buffer_created w;
              orderedNames = orderedFileNames p
          in and_then (add_files lz (files p) orderedNames ([], w)) (\<lambda>(new_archive, w).
               if \<not> close_ok lz new_archive
               then Inr ((), p, to_errs Problem_closing_new_zip_archive w)
               else
                 let outbuffer = archive_bytes lz new_archive;
                     sz = length outbuffer;
                     w = to_outs (Zip_buffer_is_of_size sz) w
                 in if \<not> malloc_ok lz sz
                    then Inr ((), p, to_errs Unable_to_allocate_output_buffer w)
                    else Inr ((), p, w\<lparr>sink := sink w @ outbuffer\<rparr>))))"

subsection \<open>Notions used to state the properties of the build\<close>

text \<open>The entry for the key \<open>k\<close> is wrapped as a source and added to the archive.\<close>

definition added :: "libzip \<Rightarrow> string \<Rightarrow> bool" where
  "added lz k = (file_source_ok lz k \<and> file_add_ok lz k)"

text \<open>What one pass of the loop writes to \<^verbatim>\<open>llvm::errs()\<close> for the key \<open>k\<close>.\<close>

definition entry_report :: "libzip \<Rightarrow> string \<Rightarrow> msg list" where
  "entry_report lz k =
     (if \<not> file_source_ok lz k then [Cant_create_zip_source_for k]
      else if \<not> file_add_ok lz k then [Problem_adding_file k] else [])"

definition name_data :: "zip_entry \<Rightarrow> string \<times> string" where
  "name_data e = (ze_name e, ze_data e)"

text \<open>The archive that the loop of \<^verbatim>\<open>writeZip\<close> has filled when it reaches
  \<^verbatim>\<open>zip_close\<close>, for the payload that \<^verbatim>\<open>addManifest\<close> has left.\<close>

definition built_archive :: "libzip \<Rightarrow> Payload \<Rightarrow> zip_t" where
  "built_archive lz p =
     (case add_files lz (files p) (orderedFileNames p) ([], \<lparr>sink = [], outs = [], errs = []\<rparr>) of
        Inr (new_archive, w) \<Rightarrow> new_archive
      | Inl e \<Rightarrow> [])"

section \<open>Properties of the store\<close>

subsection \<open>Helper lemmas\<close>

lemma sorted_perm_unique:
  assumes d: "distinct xs" and i: "inj_on f (set xs)"
    and m: "mset r = mset xs" and s: "sorted (map f r)"
  shows "r = sort_key f xs"
proof -
  have sr: "set r = set xs" using m by (rule mset_eq_setD)
  have dr: "distinct r" using m d by (metis mset_eq_imp_distinct_iff)
  have "map f r = map f (sort_key f xs)"
  proof (rule sorted_distinct_set_unique)
    show "sorted (map f r)" by (rule s)
    show "distinct (map f r)" using dr i sr by (simp add: distinct_map)
    show "sorted (map f (sort_key f xs))" by (rule sorted_sort_key)
    show "distinct (map f (sort_key f xs))" using d i by (simp add: distinct_map)
    show "set (map f r) = set (map f (sort_key f xs))" using sr by simp
  qed
  moreover have "inj_on f (set r \<union> set (sort_key f xs))" using i sr by simp
  ultimately show ?thesis by (rule inj_on_map_eq_map [THEN iffD1, rotated])
qed

lemma try_emplace_subscript:
  "subscript key (try_emplace key fs) = (Slot key, try_emplace key fs)"
  by (simp add: subscript_def try_emplace_def keys_def)

lemma getFile_eq:
  "getFile fName p = (Slot (prefix p @ fName), p\<lparr>files := try_emplace (prefix p @ fName) (files p)\<rparr>)"
  by (simp add: getFile_def Let_def try_emplace_subscript)

lemma getFile_present:
  "prefix p @ fName \<in> set (keys (files p)) \<Longrightarrow> snd (getFile fName p) = p"
  by (simp add: getFile_eq try_emplace_def)

lemma getFile_key_present:
  "prefix p @ fName \<in> set (keys (files (snd (getFile fName p))))"
  by (simp add: getFile_eq try_emplace_def keys_def)

lemma getFile_prefix: "prefix (snd (getFile fName p)) = prefix p"
  by (simp add: getFile_eq)

lemma getFile_twice: "snd (getFile fName (snd (getFile fName p))) = snd (getFile fName p)"
  by (rule getFile_present) (simp add: getFile_prefix getFile_key_present)

lemma getFile_funpow:
  "((\<lambda>r. snd (getFile fName r)) ^^ Suc n) p = snd (getFile fName p)"
  by (induction n) (simp_all add: getFile_twice)

lemma count_distinct:
  "distinct ks \<Longrightarrow> k \<in> set ks \<Longrightarrow> length (filter (\<lambda>x. x = k) ks) = 1"
  by (induction ks) (auto simp: filter_empty_conv)

lemma getFile_distinct:
  "distinct (keys (files p)) \<Longrightarrow> distinct (keys (files (snd (getFile fName p))))"
  by (simp add: getFile_eq try_emplace_def keys_def)

lemma content_try_emplace:
  "content (try_emplace key fs) k = content fs k"
  by (auto simp: content_def try_emplace_def keys_def map_of_eq_None_iff[symmetric] split: option.splits)

lemma content_assign:
  "key \<in> set (keys fs) \<Longrightarrow> content (assign key v fs) key = v"
  by (induction fs) (auto simp: content_def assign_def keys_def)

lemma keys_assign: "keys (assign key v fs) = keys fs"
  by (induction fs) (auto simp: assign_def keys_def)


subsection \<open>orderedFileNames: the order of the result\<close>

text \<open>
  Claim C1 asks for the keys in byte order of the whole path string. The keys
  \<^verbatim>\<open>out/a.txt\<close> and \<^verbatim>\<open>out/a/x\<close> come out in the other order: as paths they are compared
  element by element, and the element \<^verbatim>\<open>a\<close> is smaller than \<^verbatim>\<open>a.txt\<close>, while as strings
  the byte \<^verbatim>\<open>.\<close> is smaller than \<^verbatim>\<open>/\<close>.
\<close>

theorem orderedFileNames_byte_order_counterexample:
  "orderedFileNames \<lparr>prefix = ''out/'', files = [(''out/a.txt'', ''hello''), (''out/a/x'', ''world'')]\<rparr>
     = [''out/a/x'', ''out/a.txt'']
   \<and> ''out/a.txt'' < ''out/a/x''"
  by (simp add: orderedFileNames_def keys_def path_key_def path_elems_def
      has_root_directory_def is_sep_def)

text \<open>
  Claim C1, amended: \<^verbatim>\<open>orderedFileNames\<close> returns every key of the store exactly as often
  as the store has it, in ascending order of the path comparison (no later name is smaller,
  as a path, than an earlier one). When the keys are pairwise distinct and no two of them
  compare equal as paths, every permutation of the keys in that order is this list, so the
  result does not depend on the sorting algorithm or on the order in which the keys were
  inserted.
\<close>

theorem orderedFileNames_path_sorted:
  "mset (orderedFileNames p) = mset (keys (files p)) \<and>
   sorted_wrt (\<lambda>a b. \<not> path_less b a) (orderedFileNames p) \<and>
   (distinct (keys (files p)) \<and> inj_on path_key (set (keys (files p))) \<longrightarrow>
      (\<forall>r. mset r = mset (keys (files p)) \<and> sorted_wrt (\<lambda>a b. \<not> path_less b a) r
            \<longrightarrow> r = orderedFileNames p) \<and>
      (\<forall>q. distinct (keys (files q)) \<and> set (keys (files q)) = set (keys (files p))
            \<longrightarrow> orderedFileNames q = orderedFileNames p))"
proof -
  have conv: "sorted_wrt (\<lambda>a b. \<not> path_less b a) r = sorted (map path_key r)" for r
    by (simp add: sorted_map path_less_def not_less)
  have m: "mset (orderedFileNames p) = mset (keys (files p))"
    by (simp add: orderedFileNames_def)
  have s: "sorted_wrt (\<lambda>a b. \<not> path_less b a) (orderedFileNames p)"
    by (simp add: conv orderedFileNames_def)
  have u: "r = orderedFileNames p"
    if "distinct (keys (files p))" "inj_on path_key (set (keys (files p)))"
      "mset r = mset (keys (files p))" "sorted_wrt (\<lambda>a b. \<not> path_less b a) r" for r
    unfolding orderedFileNames_def using that by (intro sorted_perm_unique) (simp_all add: conv)
  have o: "orderedFileNames q = orderedFileNames p"
    if d: "distinct (keys (files p))" and i: "inj_on path_key (set (keys (files p)))"
      and dq: "distinct (keys (files q))" and e: "set (keys (files q)) = set (keys (files p))" for q
  proof (rule u [OF d i])
    have "mset (keys (files q)) = mset (keys (files p))"
      using d dq e by (simp add: set_eq_iff_mset_eq_distinct)
    then show "mset (orderedFileNames q) = mset (keys (files p))"
      by (simp add: orderedFileNames_def)
    show "sorted_wrt (\<lambda>a b. \<not> path_less b a) (orderedFileNames q)"
      by (simp add: conv orderedFileNames_def)
  qed
  from m s u o show ?thesis by blast
qed

text \<open>The same two keys inserted in either order.\<close>

theorem orderedFileNames_path_sorted_witness:
  "orderedFileNames \<lparr>prefix = ''out/'', files = [(''out/b.txt'', ''world''), (''out/a.txt'', ''hello'')]\<rparr>
     = orderedFileNames \<lparr>prefix = ''out/'', files = [(''out/a.txt'', ''hello''), (''out/b.txt'', ''world'')]\<rparr>"
proof -
  let ?p = "\<lparr>prefix = ''out/'', files = [(''out/a.txt'', ''hello''), (''out/b.txt'', ''world'')]\<rparr>"
  let ?q = "\<lparr>prefix = ''out/'', files = [(''out/b.txt'', ''world''), (''out/a.txt'', ''hello'')]\<rparr>"
  have d: "distinct (keys (files ?p))" by (simp add: keys_def)
  have i: "inj_on path_key (set (keys (files ?p)))"
    by (simp add: keys_def path_key_def path_elems_def has_root_directory_def is_sep_def)
  have dq: "distinct (keys (files ?q))" by (simp add: keys_def)
  have e: "set (keys (files ?q)) = set (keys (files ?p))" by (auto simp: keys_def)
  from orderedFileNames_path_sorted [of ?p] d i dq e show ?thesis by blast
qed

subsection \<open>getFile\<close>

text \<open>
  Claim C5: \<^verbatim>\<open>getFile\<close> is an idempotent get-or-create. In a store with distinct keys,
  after any positive number of calls with the same name there is exactly one entry under
  \<open>prefix @ fName\<close>; the first call and every later call return the slot of that key; a
  further call changes nothing; no content of the store has changed, and a store that
  already had the key is left as it was; a value assigned through the handle of the first
  call is read through the handle of a later call.
\<close>

theorem getFile_idempotent:
  assumes "distinct (keys (files p))"
  shows "let key = prefix p @ fName;
             q = ((\<lambda>r. snd (getFile fName r)) ^^ Suc n) p
         in length (filter (\<lambda>k. k = key) (keys (files q))) = 1 \<and>
            fst (getFile fName p) = Slot key \<and>
            fst (getFile fName q) = Slot key \<and>
            snd (getFile fName q) = q \<and>
            prefix q = prefix p \<and>
            (\<forall>k. content (files q) k = content (files p) k) \<and>
            (key \<in> set (keys (files p)) \<longrightarrow> q = p) \<and>
            (\<forall>v. deref (store (fst (getFile fName p)) v (files q)) (fst (getFile fName q)) = v)"
proof -
  let ?key = "prefix p @ fName"
  let ?q = "snd (getFile fName p)"
  have q: "((\<lambda>r. snd (getFile fName r)) ^^ Suc n) p = ?q" by (rule getFile_funpow)
  have k: "?key \<in> set (keys (files ?q))" by (rule getFile_key_present)
  have d: "distinct (keys (files ?q))" using assms by (rule getFile_distinct)
  have 1: "length (filter (\<lambda>k. k = ?key) (keys (files ?q))) = 1"
    using d k by (rule count_distinct)
  have 2: "fst (getFile fName p) = Slot ?key" by (simp add: getFile_eq)
  have 3: "fst (getFile fName ?q) = Slot ?key" by (simp add: getFile_eq)
  have 4: "snd (getFile fName ?q) = ?q" by (rule getFile_twice)
  have 5: "prefix ?q = prefix p" by (rule getFile_prefix)
  have 6: "content (files ?q) k = content (files p) k" for k
    by (simp add: getFile_eq content_try_emplace)
  have 7: "?key \<in> set (keys (files p)) \<Longrightarrow> ?q = p" by (rule getFile_present)
  have 8: "deref (store (fst (getFile fName p)) v (files ?q)) (fst (getFile fName ?q)) = v" for v
    using k by (simp add: 2 3 content_assign)
  show ?thesis unfolding Let_def q using 1 2 3 4 5 6 7 8 by blast
qed

text \<open>Three calls on a store that already holds the file.\<close>

theorem getFile_idempotent_witness:
  "let p = \<lparr>prefix = ''out/'', files = [(''out/a.txt'', ''hello'')]\<rparr>;
       q = ((\<lambda>r. snd (getFile ''a.txt'' r)) ^^ Suc 2) p
   in distinct (keys (files p)) \<and>
      length (filter (\<lambda>k. k = ''out/a.txt'') (keys (files q))) = 1 \<and>
      fst (getFile ''a.txt'' q) = Slot ''out/a.txt'' \<and> q = p"
proof -
  let ?p = "\<lparr>prefix = ''out/'', files = [(''out/a.txt'', ''hello'')]\<rparr>"
  have d: "distinct (keys (files ?p))" by (simp add: keys_def)
  have k: "prefix ?p @ ''a.txt'' \<in> set (keys (files ?p))" by (simp add: keys_def)
  from getFile_idempotent [OF d, of "''a.txt''" 2] d k show ?thesis
    by (simp add: Let_def keys_def)
qed

text \<open>
  Claim C10: the two overloads of \<^verbatim>\<open>getFile\<close> agree. When the \<^verbatim>\<open>const char *\<close> argument
  denotes the string \<open>s\<close>, the call returns the same slot, the slot of \<open>prefix @ s\<close>, and
  the same payload as the \<^verbatim>\<open>std::string\<close> overload called with \<open>s\<close>.
\<close>

theorem getFile_overloads_equal:
  "c_str m = s \<Longrightarrow>
     getFile_cstr m p = getFile s p \<and>
     fst (getFile_cstr m p) = Slot (prefix p @ s) \<and>
     files (snd (getFile_cstr m p)) = try_emplace (prefix p @ s) (files p)"
  by (auto simp: getFile_eq getFile_cstr_def getFile_def Let_def try_emplace_subscript)

text \<open>The C string \<^verbatim>\<open>a.txt\<close> with its terminating NUL.\<close>

theorem getFile_overloads_equal_witness:
  "c_str (''a.txt'' @ [CHR 0x00]) = ''a.txt'' \<and>
   getFile_cstr (''a.txt'' @ [CHR 0x00]) \<lparr>prefix = ''out/'', files = []\<rparr>
     = getFile ''a.txt'' \<lparr>prefix = ''out/'', files = []\<rparr>"
proof -
  have c: "c_str (''a.txt'' @ [CHR 0x00]) = ''a.txt''" by (simp add: c_str_def)
  from getFile_overloads_equal [OF c] c show ?thesis by simp
qed

section \<open>Properties of the archive's permission bits\<close>

text \<open>The program's test for a shell script holds exactly when the last element of the
  path is a non-empty stem followed by \<^verbatim>\<open>.sh\<close>.\<close>

lemma extension_sh_iff:
  "(has_extension fName \<and> extension fName = ''.sh'')
     = (\<exists>stem. stem \<noteq> [] \<and> filename fName = stem @ ''.sh'')"
proof
  assume a: "has_extension fName \<and> extension fName = ''.sh''"
  let ?f = "filename fName"
  let ?P = "\<lambda>c. c \<noteq> CHR ''.''"
  from a have e: "extension fName = ''.sh''" by simp
  have dot: "CHR ''.'' \<in> set (tl ?f)"
    using e by (auto simp: extension_def Let_def split: if_splits)
  have tw: "takeWhile ?P (rev ?f) = ''hs''"
  proof -
    from e dot have "rev (takeWhile ?P (rev ?f)) = ''sh''"
      by (auto simp: extension_def Let_def split: if_splits)
    then have "rev (rev (takeWhile ?P (rev ?f))) = rev ''sh''" by (rule arg_cong)
    then show ?thesis by simp
  qed
  have "CHR ''.'' \<in> set (rev ?f)" using dot by (cases ?f) auto
  then have ne: "dropWhile ?P (rev ?f) \<noteq> []" by (auto simp: dropWhile_eq_Nil_conv)
  then obtain rest where dw: "dropWhile ?P (rev ?f) = CHR ''.'' # rest"
    using hd_dropWhile [of ?P "rev ?f"] by (cases "dropWhile ?P (rev ?f)") auto
  have "rev ?f = ''hs'' @ CHR ''.'' # rest"
    using takeWhile_dropWhile_id [of ?P "rev ?f"] tw dw by simp
  then have "rev (rev ?f) = rev (''hs'' @ CHR ''.'' # rest)" by (rule arg_cong)
  then have f: "?f = rev rest @ ''.sh''" by simp
  have "rev rest \<noteq> []"
  proof
    assume "rev rest = []"
    with f have "tl ?f = ''sh''" by simp
    with dot show False by simp
  qed
  with f show "\<exists>stem. stem \<noteq> [] \<and> ?f = stem @ ''.sh''" by blast
next
  assume "\<exists>stem. stem \<noteq> [] \<and> filename fName = stem @ ''.sh''"
  then obtain stem where s: "stem \<noteq> []" and f: "filename fName = stem @ ''.sh''" by blast
  from s obtain c cs where st: "stem = c # cs" by (cases stem) auto
  have "extension fName = ''.sh''"
    unfolding extension_def f st by (simp add: Let_def)
  then show "has_extension fName \<and> extension fName = ''.sh''"
    by (simp add: has_extension_def)
qed


text \<open>The three shifted constants are single bits of the attribute word: bit 20 is
  group-writable, bit 17 other-writable, bit 22 owner-executable.\<close>
lemma UINT32_MAX_minus_1: "UINT32_MAX = - 1"
  by (simp add: UINT32_MAX_def)

lemma IWGRP_bit: "push_bit 16 S_IWGRP = (push_bit 20 1 :: 32 word)"
  by (simp add: S_IWGRP_def)

lemma IWOTH_bit: "push_bit 16 S_IWOTH = (push_bit 17 1 :: 32 word)"
  by (simp add: S_IWOTH_def)

lemma IXUSR_bit: "push_bit 16 S_IXUSR = (push_bit 22 1 :: 32 word)"
  by (simp add: S_IXUSR_def)

lemma mask_bits:
  "bit (((a::32 word) AND ((UINT32_MAX XOR push_bit 16 S_IWGRP) XOR push_bit 16 S_IWOTH))) n
     = (bit a n \<and> n \<noteq> 20 \<and> n \<noteq> 17)"
  unfolding UINT32_MAX_minus_1 IWGRP_bit IWOTH_bit
  by (auto simp add: bit_simps simp del: push_bit_of_1 dest: bit_imp_le_length)

lemma exec_bits:
  "bit ((a::32 word) OR push_bit 16 S_IXUSR) n = (bit a n \<or> n = 22)"
  unfolding IXUSR_bit
  by (auto simp add: bit_simps simp del: push_bit_of_1 dest: bit_imp_le_length)



lemma and_single_bit:
  "((a::32 word) AND push_bit k 1 = 0) = (\<not> bit a k)"
  by (simp add: and_exp_eq_0_iff_not_bit)

lemma and_IWGRP: "((x::32 word) AND push_bit 16 S_IWGRP = 0) = (\<not> bit x 20)"
  by (simp only: IWGRP_bit and_single_bit)

lemma and_IWOTH: "((x::32 word) AND push_bit 16 S_IWOTH = 0) = (\<not> bit x 17)"
  by (simp only: IWOTH_bit and_single_bit)

lemma and_IXUSR: "((x::32 word) AND push_bit 16 S_IXUSR = 0) = (\<not> bit x 22)"
  by (simp only: IXUSR_bit and_single_bit)

lemma same_opsys:
  "ze_opsys e = v \<Longrightarrow> e\<lparr>ze_opsys := v, ze_attributes := a\<rparr> = e\<lparr>ze_attributes := a\<rparr>"
  by (cases e) simp

lemma unix_attributes_eq:
  assumes "i < length za" and "ze_opsys (za ! i) = ZIP_OPSYS_UNIX"
  shows "setFilePermissions i fName za =
           Inr (za[i := (za ! i)\<lparr>ze_attributes :=
                  (let a = ze_attributes (za ! i) AND
                             ((UINT32_MAX XOR push_bit 16 S_IWGRP) XOR push_bit 16 S_IWOTH)
                   in if has_extension fName \<and> extension fName = ''.sh''
                      then a OR push_bit 16 S_IXUSR else a)\<rparr>])"
  using assms
  by (simp add: setFilePermissions_def zip_file_get_external_attributes_def
      zip_file_set_external_attributes_def Let_def same_opsys)

text \<open>
  Claim C2: for an entry of the archive tagged \<^verbatim>\<open>ZIP_OPSYS_UNIX\<close>, \<^verbatim>\<open>setFilePermissions\<close>
  returns the archive with only the attribute word of that entry replaced. In the new word
  the group-writable and the other-writable bit are clear; the owner-executable bit is set
  exactly when it was set before or the file name ends with the extension \<^verbatim>\<open>.sh\<close> (a
  non-empty stem followed by \<^verbatim>\<open>.sh\<close>), so the step sets it if and only if the name has
  that extension; every bit outside these three is as before.
\<close>

theorem setFilePermissions_unix:
  assumes "i < length za" and "ze_opsys (za ! i) = ZIP_OPSYS_UNIX"
  shows "\<exists>a'. setFilePermissions i fName za = Inr (za[i := (za ! i)\<lparr>ze_attributes := a'\<rparr>]) \<and>
           a' AND push_bit 16 S_IWGRP = 0 \<and>
           a' AND push_bit 16 S_IWOTH = 0 \<and>
           ((a' AND push_bit 16 S_IXUSR \<noteq> 0) =
              (ze_attributes (za ! i) AND push_bit 16 S_IXUSR \<noteq> 0 \<or>
               (\<exists>stem. stem \<noteq> [] \<and> filename fName = stem @ ''.sh''))) \<and>
           (\<forall>n. \<not> bit (push_bit 16 (S_IWGRP OR S_IWOTH OR S_IXUSR)) n \<longrightarrow>
                bit a' n = bit (ze_attributes (za ! i)) n)"
proof -
  let ?a = "ze_attributes (za ! i)"
  let ?m = "?a AND ((UINT32_MAX XOR push_bit 16 S_IWGRP) XOR push_bit 16 S_IWOTH)"
  let ?sh = "has_extension fName \<and> extension fName = ''.sh''"
  let ?a' = "if ?sh then ?m OR push_bit 16 S_IXUSR else ?m"
  have b: "bit ?a' n = (bit ?a n \<and> n \<noteq> 20 \<and> n \<noteq> 17 \<or> ?sh \<and> n = 22)" for n
    by (auto simp: mask_bits exec_bits)
  have 0: "setFilePermissions i fName za = Inr (za[i := (za ! i)\<lparr>ze_attributes := ?a'\<rparr>])"
    using unix_attributes_eq [OF assms, of fName] by (simp add: Let_def)
  have 1: "?a' AND push_bit 16 S_IWGRP = 0"
    by (simp only: and_IWGRP b) simp
  have 2: "?a' AND push_bit 16 S_IWOTH = 0"
    by (simp only: and_IWOTH b) simp
  have 3: "(?a' AND push_bit 16 S_IXUSR \<noteq> 0) = (?a AND push_bit 16 S_IXUSR \<noteq> 0 \<or> ?sh)"
    by (simp only: and_IXUSR b) simp
  have m: "bit (push_bit 16 (S_IWGRP OR S_IWOTH OR S_IXUSR) :: 32 word) n
             = (n = 20 \<or> n = 17 \<or> n = 22)" for n
    unfolding push_bit_or IWGRP_bit IWOTH_bit IXUSR_bit
    by (auto simp add: bit_simps simp del: push_bit_of_1)
  have 4: "\<forall>n. \<not> bit (push_bit 16 (S_IWGRP OR S_IWOTH OR S_IXUSR) :: 32 word) n \<longrightarrow>
             bit ?a' n = bit ?a n"
    by (simp only: m b) blast
  from 0 1 2 3 4 show ?thesis
    unfolding extension_sh_iff by blast
qed

text \<open>The entry \<^verbatim>\<open>out/run.sh\<close> with mode \<^verbatim>\<open>0100666\<close>.\<close>

theorem setFilePermissions_unix_witness:
  "let za = [\<lparr>ze_name = ''out/run.sh'', ze_data = ''echo'', ze_opsys = ZIP_OPSYS_UNIX,
              ze_attributes = push_bit 16 0x81B6\<rparr>]
   in 0 < length za \<and> ze_opsys (za ! 0) = ZIP_OPSYS_UNIX \<and>
      (\<exists>a'. setFilePermissions 0 ''out/run.sh'' za = Inr (za[0 := (za ! 0)\<lparr>ze_attributes := a'\<rparr>]) \<and>
            a' AND push_bit 16 S_IWGRP = 0 \<and> a' AND push_bit 16 S_IWOTH = 0 \<and>
            a' AND push_bit 16 S_IXUSR \<noteq> 0)"
proof -
  let ?za = "[\<lparr>ze_name = ''out/run.sh'', ze_data = ''echo'', ze_opsys = ZIP_OPSYS_UNIX,
               ze_attributes = push_bit 16 0x81B6\<rparr>]"
  have h1: "0 < length ?za" by simp
  have h2: "ze_opsys (?za ! 0) = ZIP_OPSYS_UNIX" by simp
  have f: "filename ''out/run.sh'' = ''run'' @ ''.sh''" by (simp add: filename_def is_sep_def)
  then have sh: "\<exists>stem. stem \<noteq> [] \<and> filename ''out/run.sh'' = stem @ ''.sh''" by blast
  from setFilePermissions_unix [OF h1 h2, of "''out/run.sh''"] sh h1 h2
  show ?thesis unfolding Let_def by blast
qed

text \<open>
  Claim C7: for an entry whose tag is not \<^verbatim>\<open>ZIP_OPSYS_UNIX\<close>, \<^verbatim>\<open>setFilePermissions\<close>
  returns the archive as it was given: no entry, and so no attribute word, is changed.
\<close>

theorem setFilePermissions_non_unix:
  assumes "i < length za" and "ze_opsys (za ! i) \<noteq> ZIP_OPSYS_UNIX"
  shows "setFilePermissions i fName za = Inr za"
  using assms
  by (simp add: setFilePermissions_def zip_file_get_external_attributes_def)

text \<open>The same entry tagged \<^verbatim>\<open>ZIP_OPSYS_DOS\<close> (0).\<close>

theorem setFilePermissions_non_unix_witness:
  "let za = [\<lparr>ze_name = ''out/run.sh'', ze_data = ''echo'', ze_opsys = 0,
              ze_attributes = push_bit 16 0x81B6\<rparr>]
   in 0 < length za \<and> ze_opsys (za ! 0) \<noteq> ZIP_OPSYS_UNIX \<and>
      setFilePermissions 0 ''out/run.sh'' za = Inr za"
proof -
  let ?za = "[\<lparr>ze_name = ''out/run.sh'', ze_data = ''echo'', ze_opsys = 0,
               ze_attributes = push_bit 16 0x81B6\<rparr>]"
  have h1: "0 < length ?za" by simp
  have h2: "ze_opsys (?za ! 0) \<noteq> ZIP_OPSYS_UNIX" by (simp add: ZIP_OPSYS_UNIX_def)
  from setFilePermissions_non_unix [OF h1 h2] h1 h2 show ?thesis
    unfolding Let_def by blast
qed

section \<open>Properties of the plain-text dump\<close>

text \<open>The loop over the files returns exactly when no content is empty, and then writes
  for each file the header line, the content, a newline unless the content ends in one,
  and the separator.\<close>

lemma writePlain_files_nonempty:
  "\<forall>k \<in> set names. content fs k \<noteq> [] \<Longrightarrow>
     writePlain_files fs names stream =
       Inr (stream @ concat (map (\<lambda>k. ''File: '' @ k @ [newline] @ content fs k
                                       @ (if last (content fs k) \<noteq> newline then [newline] else [])
                                       @ separator) names))"
  by (induction names arbitrary: stream) (simp_all add: Let_def)

lemma writePlain_files_empty:
  "\<exists>k \<in> set names. content fs k = [] \<Longrightarrow>
     writePlain_files fs names stream = Inl undefined_behaviour"
  by (induction names arbitrary: stream) (auto simp: Let_def)

text \<open>
  Claim C9 asks that the dump be defined for every store, also one with an empty content.
  \<^verbatim>\<open>getFile\<close> on a new name leaves an entry with empty content; \<^verbatim>\<open>writePlain\<close> on that
  store reads the last byte of the empty string, which is undefined.
\<close>

theorem writePlain_empty_content:
  "getFile ''a.txt'' \<lparr>prefix = ''out/'', files = []\<rparr>
     = (Slot ''out/a.txt'', \<lparr>prefix = ''out/'', files = [(''out/a.txt'', [])]\<rparr>) \<and>
   writePlain \<lparr>prefix = ''out/'', files = [(''out/a.txt'', [])]\<rparr> [] = Inl undefined_behaviour"
  by (simp add: getFile_def try_emplace_def subscript_def keys_def writePlain_def
      orderedFileNames_def content_def Let_def)

section \<open>Properties of the manifest\<close>

lemma keys_put:
  "keys (put key v fs) = (if key \<in> set (keys fs) then keys fs else key # keys fs)"
  by (simp add: put_def subscript_def keys_assign) (simp add: keys_def)

lemma content_assign_other:
  "k \<noteq> key \<Longrightarrow> content (assign key v fs) k = content fs k"
  by (induction fs) (auto simp: content_def assign_def)

lemma content_put: "content (put key v fs) k = (if k = key then v else content fs k)"
  by (auto simp: put_def subscript_def content_assign content_assign_other keys_def)
     (simp add: content_def)

text \<open>Printable ASCII text without quote and backslash is serialized as it is.\<close>

lemma of_char_quote: "((of_char c :: nat) = 0x22) = (c = CHR 0x22)"
proof -
  have "((of_char c :: nat) = of_char (CHR 0x22)) = (c = CHR 0x22)" by (rule of_char_eq_iff)
  then show ?thesis by simp
qed

lemma of_char_backslash: "((of_char c :: nat) = 0x5C) = (c = CHR 0x5C)"
proof -
  have "((of_char c :: nat) = of_char (CHR 0x5C)) = (c = CHR 0x5C)" by (rule of_char_eq_iff)
  then show ?thesis by simp
qed

lemma escape_ascii_plain:
  "0x20 \<le> (of_char c :: nat) \<Longrightarrow> c \<noteq> CHR 0x22 \<Longrightarrow> c \<noteq> CHR 0x5C \<Longrightarrow> escape_ascii c = [c]"
  by (simp add: escape_ascii_def Let_def of_char_quote of_char_backslash)

lemma dump_escaped_plain:
  "\<forall>c \<in> set s. 0x20 \<le> (of_char c :: nat) \<and> (of_char c :: nat) < 0x80 \<and> c \<noteq> CHR 0x22 \<and> c \<noteq> CHR 0x5C
     \<Longrightarrow> dump_escaped s = Inr s"
  by (induction s) (simp_all add: escape_ascii_plain and_then_def)

lemma dump_escaped_version: "dump_escaped ''version'' = Inr ''version''"
  by (simp add: escape_ascii_def and_then_def)

lemma dump_escaped_contents_path: "dump_escaped ''contents_path'' = Inr ''contents_path''"
  by (simp add: escape_ascii_def and_then_def)

lemma manifest_members:
  "json_set ''contents_path'' pf (json_set ''version'' v []) = [(''contents_path'', pf), (''version'', v)]"
  by (simp add: json_set_def)


lemma dump_manifest:
  assumes "dump_escaped pf = Inr pe" and "dump_escaped v = Inr ve"
  shows "dump [(''contents_path'', pf), (''version'', v)]
           = Inr (''{'' @ [CHR 0x22] @ ''contents_path'' @ [CHR 0x22] @ '':'' @ [CHR 0x22] @ pe @ [CHR 0x22]
                  @ '','' @ [CHR 0x22] @ ''version'' @ [CHR 0x22] @ '':'' @ [CHR 0x22] @ ve @ [CHR 0x22] @ ''}'')"
  by (simp add: dump_def dump_member_def dump_string_def and_then_def assms
      dump_escaped_version dump_escaped_contents_path del: dump_escaped.simps)

lemma addManifest_eq:
  assumes "dump_escaped (prefix p) = Inr pe" and "dump_escaped QSSC_VERSION = Inr ve"
  shows "addManifest QSSC_VERSION p
           = Inr (p\<lparr>files := put manifest_fname
             (''{'' @ [CHR 0x22] @ ''contents_path'' @ [CHR 0x22] @ '':'' @ [CHR 0x22] @ pe @ [CHR 0x22]
               @ '','' @ [CHR 0x22] @ ''version'' @ [CHR 0x22] @ '':'' @ [CHR 0x22] @ ve @ [CHR 0x22]
               @ ''}'' @ [newline]) (files p)\<rparr>)"
  by (simp only: addManifest_def Let_def manifest_members dump_manifest [OF assms]
      and_then_def sum.case append_assoc)

text \<open>
  Claim C4: when the JSON library can serialize the prefix and the version string (as
  \<open>pe\<close> and \<open>ve\<close>; for text without characters to escape these are the strings
  themselves), \<^verbatim>\<open>addManifest\<close> returns, and afterwards the store has the key
  \<^verbatim>\<open>manifest/manifest.json\<close>, without the prefix, next to the keys it had; keys stay
  distinct, so there is one such entry; its content is the object with the two members
  \<^verbatim>\<open>contents_path\<close> and \<^verbatim>\<open>version\<close>, written without white space, and one newline after
  the closing brace, whatever was stored under that key before; the prefix and every other
  content are unchanged.
\<close>

theorem addManifest_entry:
  assumes "dump_escaped (prefix p) = Inr pe" and "dump_escaped QSSC_VERSION = Inr ve"
  shows "\<exists>p'. addManifest QSSC_VERSION p = Inr p' \<and>
           prefix p' = prefix p \<and>
           set (keys (files p')) = insert ''manifest/manifest.json'' (set (keys (files p))) \<and>
           (distinct (keys (files p)) \<longrightarrow> distinct (keys (files p'))) \<and>
           content (files p') ''manifest/manifest.json''
             = ''{'' @ [CHR 0x22] @ ''contents_path'' @ [CHR 0x22] @ '':'' @ [CHR 0x22] @ pe @ [CHR 0x22]
               @ '','' @ [CHR 0x22] @ ''version'' @ [CHR 0x22] @ '':'' @ [CHR 0x22] @ ve @ [CHR 0x22]
               @ ''}'' @ [newline] \<and>
           (\<forall>k. k \<noteq> ''manifest/manifest.json'' \<longrightarrow> content (files p') k = content (files p) k)"
proof -
  let ?t = "''{'' @ [CHR 0x22] @ ''contents_path'' @ [CHR 0x22] @ '':'' @ [CHR 0x22] @ pe @ [CHR 0x22]
               @ '','' @ [CHR 0x22] @ ''version'' @ [CHR 0x22] @ '':'' @ [CHR 0x22] @ ve @ [CHR 0x22]
               @ ''}'' @ [newline]"
  let ?p' = "p\<lparr>files := put manifest_fname ?t (files p)\<rparr>"
  have a: "addManifest QSSC_VERSION p = Inr ?p'" using assms by (rule addManifest_eq)
  have 1: "prefix ?p' = prefix p" by simp
  have 2: "set (keys (files ?p')) = insert manifest_fname (set (keys (files p)))"
    by (auto simp: keys_put)
  have 3: "distinct (keys (files p)) \<longrightarrow> distinct (keys (files ?p'))"
    by (simp add: keys_put)
  have 4: "content (files ?p') manifest_fname = ?t"
    by (simp add: content_put)
  have 5: "\<forall>k. k \<noteq> manifest_fname \<longrightarrow> content (files ?p') k = content (files p) k"
    by (simp add: content_put)
  from a 1 2 3 4 5 show ?thesis
    unfolding manifest_fname_def by blast
qed

text \<open>Prefix \<^verbatim>\<open>out/\<close>, version \<^verbatim>\<open>1.0\<close>, and an old manifest in the store.\<close>

theorem addManifest_entry_witness:
  "dump_escaped ''out/'' = Inr ''out/'' \<and> dump_escaped ''1.0'' = Inr ''1.0'' \<and>
   (\<exists>p'. addManifest ''1.0'' \<lparr>prefix = ''out/'', files = [(''manifest/manifest.json'', ''old'')]\<rparr> = Inr p' \<and>
      content (files p') ''manifest/manifest.json''
        = ''{'' @ [CHR 0x22] @ ''contents_path'' @ [CHR 0x22] @ '':'' @ [CHR 0x22] @ ''out/'' @ [CHR 0x22]
          @ '','' @ [CHR 0x22] @ ''version'' @ [CHR 0x22] @ '':'' @ [CHR 0x22] @ ''1.0'' @ [CHR 0x22]
          @ ''}'' @ [newline])"
proof -
  let ?p = "\<lparr>prefix = ''out/'', files = [(''manifest/manifest.json'', ''old'')]\<rparr>"
  have h1: "dump_escaped (prefix ?p) = Inr ''out/''" by (simp add: escape_ascii_def and_then_def)
  have h2: "dump_escaped ''1.0'' = Inr ''1.0''" by (simp add: escape_ascii_def and_then_def)
  from addManifest_entry [OF h1 h2] h1 h2 show ?thesis by auto
qed

text \<open>A prefix that is not UTF-8 makes the serialization throw; nothing is stored.\<close>

lemma dump_escaped_invalid: "dump_escaped [CHR 0xFF, CHR ''/''] = Inl type_error_316"
  by (simp add: utf8_tail_def cont_def)

lemma addManifest_throws:
  "addManifest ''1.0'' \<lparr>prefix = [CHR 0xFF, CHR ''/''], files = []\<rparr> = Inl type_error_316"
  by (simp only: addManifest_def Let_def manifest_members dump_def dump_members.simps dump_member_def
      dump_string_def fst_conv snd_conv Payload.simps dump_escaped_invalid dump_escaped_contents_path
      and_then_def sum.case)

section \<open>Properties of the archive build\<close>

subsection \<open>The library calls of one pass\<close>

lemma zip_name_locate_Some:
  "zip_name_locate za n = Some i \<Longrightarrow> i < length za \<and> ze_name (za ! i) = n"
  by (induction za arbitrary: i) (auto split: if_splits)

lemma zip_name_locate_None:
  "(zip_name_locate za n = None) = (n \<notin> set (map ze_name za))"
  by (induction za) auto

lemma zip_file_add_fail: "\<not> file_add_ok lz k \<Longrightarrow> zip_file_add lz za k b = None"
  by (simp add: zip_file_add_def)

lemma zip_file_add_ok:
  assumes "file_add_ok lz k"
  shows "\<exists>i za'. zip_file_add lz za k b = Some (i, za') \<and> i < length za' \<and>
           set (map ze_name za') = insert (c_str k) (set (map ze_name za)) \<and>
           (c_str k \<notin> set (map ze_name za) \<longrightarrow>
              map name_data za' = map name_data za @ [(c_str k, b)])"
proof (cases "zip_name_locate za (c_str k)")
  case None
  then have "c_str k \<notin> set (map ze_name za)" by (simp add: zip_name_locate_None)
  with None assms show ?thesis by (simp add: zip_file_add_def name_data_def)
next
  case (Some i)
  then have i: "i < length za" and n: "ze_name (za ! i) = c_str k"
    by (auto dest: zip_name_locate_Some)
  have m: "map ze_name (za[i := (za ! i)\<lparr>ze_data := b\<rparr>]) = map ze_name za"
    using i by (simp add: map_update list_update_same_conv)
  have m': "ze_name ` set (za[i := (za ! i)\<lparr>ze_data := b\<rparr>]) = ze_name ` set za"
    using arg_cong [OF m, of set] by simp
  have "c_str k \<in> set (map ze_name za)" using i n by (metis length_map nth_map nth_mem)
  with Some assms i m' show ?thesis by (simp add: zip_file_add_def insert_absorb)
qed

lemma setFilePermissions_ok:
  assumes "i < length za"
  shows "\<exists>za'. setFilePermissions i f za = Inr za' \<and> map name_data za' = map name_data za"
proof -
  have u: "map name_data (za[i := (za ! i)\<lparr>ze_opsys := os, ze_attributes := a\<rparr>]) = map name_data za"
    for os a using assms by (simp add: map_update name_data_def list_update_same_conv)
  show ?thesis using assms
    by (auto simp: setFilePermissions_def zip_file_get_external_attributes_def
        zip_file_set_external_attributes_def Let_def u)
qed

lemma names_of_name_data: "map ze_name za = map fst (map name_data za)"
  by (simp add: name_data_def comp_def)


subsection \<open>The loop\<close>

text \<open>One pass: the archive it leaves does not depend on the streams.\<close>

lemma add_files_step:
  "\<exists>za1. (\<forall>w. add_files lz fs (k # rest) (za, w) =
                add_files lz fs rest
                  (za1, w\<lparr>outs := outs w @ [Adding_file k (length (content fs k))],
                          errs := errs w @ entry_report lz k\<rparr>)) \<and>
         (\<not> added lz k \<longrightarrow> za1 = za) \<and>
         (added lz k \<longrightarrow>
            set (map ze_name za1) = insert (c_str k) (set (map ze_name za)) \<and>
            (c_str k \<notin> set (map ze_name za) \<longrightarrow>
               map name_data za1 = map name_data za @ [(c_str k, content fs k)]))"
proof (cases "added lz k")
  case False
  then have "\<forall>w. add_files lz fs (k # rest) (za, w) =
                add_files lz fs rest
                  (za, w\<lparr>outs := outs w @ [Adding_file k (length (content fs k))],
                          errs := errs w @ entry_report lz k\<rparr>)"
    by (auto simp: added_def entry_report_def Let_def to_outs_def to_errs_def zip_file_add_fail)
  with False show ?thesis by (intro exI [of _ za]) (simp del: add_files.simps)
next
  case True
  then have s: "file_source_ok lz k" and a: "file_add_ok lz k" by (simp_all add: added_def)
  from zip_file_add_ok [OF a, of za "content fs k"]
  obtain i za0 where z: "zip_file_add lz za k (content fs k) = Some (i, za0)"
    and i: "i < length za0"
    and n: "set (map ze_name za0) = insert (c_str k) (set (map ze_name za))"
    and d: "c_str k \<notin> set (map ze_name za) \<longrightarrow>
              map name_data za0 = map name_data za @ [(c_str k, content fs k)]"
    by blast
  from setFilePermissions_ok [OF i, of k]
  obtain za1 where p: "setFilePermissions i k za0 = Inr za1"
    and nd: "map name_data za1 = map name_data za0" by blast
  have nm: "map ze_name za1 = map ze_name za0"
    by (simp only: names_of_name_data nd)
  have e: "\<forall>w. add_files lz fs (k # rest) (za, w) =
                add_files lz fs rest
                  (za1, w\<lparr>outs := outs w @ [Adding_file k (length (content fs k))],
                          errs := errs w @ entry_report lz k\<rparr>)"
    using s a z p by (simp add: entry_report_def Let_def to_outs_def and_then_def)
  have n1: "set (map ze_name za1) = insert (c_str k) (set (map ze_name za))"
    using n nm by simp
  have d1: "c_str k \<notin> set (map ze_name za) \<longrightarrow>
              map name_data za1 = map name_data za @ [(c_str k, content fs k)]"
    using d nd by simp
  from True e n1 d1 show ?thesis by (intro exI [of _ za1]) (simp del: add_files.simps)
qed

lemma add_files_result:
  "\<exists>za'. (\<forall>w. add_files lz fs names (za, w) =
                Inr (za', w\<lparr>outs := outs w @ map (\<lambda>k. Adding_file k (length (content fs k))) names,
                            errs := errs w @ concat (map (entry_report lz) names)\<rparr>)) \<and>
         set (map ze_name za') = set (map ze_name za) \<union> c_str ` {k \<in> set names. added lz k} \<and>
         (distinct (map c_str names) \<and> c_str ` set names \<inter> set (map ze_name za) = {} \<longrightarrow>
            map name_data za' = map name_data za @
              map (\<lambda>k. (c_str k, content fs k)) (filter (added lz) names))"
proof (induction names arbitrary: za)
  case Nil
  show ?case by simp
next
  case (Cons k rest)
  from add_files_step [of lz fs k rest za]
  obtain za1 where st: "\<And>w. add_files lz fs (k # rest) (za, w) =
                add_files lz fs rest
                  (za1, w\<lparr>outs := outs w @ [Adding_file k (length (content fs k))],
                          errs := errs w @ entry_report lz k\<rparr>)"
    and no: "\<not> added lz k \<Longrightarrow> za1 = za"
    and n1: "added lz k \<Longrightarrow> set (map ze_name za1) = insert (c_str k) (set (map ze_name za))"
    and d1: "added lz k \<Longrightarrow> c_str k \<notin> set (map ze_name za) \<Longrightarrow>
               map name_data za1 = map name_data za @ [(c_str k, content fs k)]"
    by blast
  from Cons.IH [of za1]
  obtain za' where r: "\<And>w. add_files lz fs rest (za1, w) =
                Inr (za', w\<lparr>outs := outs w @ map (\<lambda>k. Adding_file k (length (content fs k))) rest,
                            errs := errs w @ concat (map (entry_report lz) rest)\<rparr>)"
    and n: "set (map ze_name za') = set (map ze_name za1) \<union> c_str ` {k \<in> set rest. added lz k}"
    and d: "distinct (map c_str rest) \<and> c_str ` set rest \<inter> set (map ze_name za1) = {} \<Longrightarrow>
            map name_data za' = map name_data za1 @
              map (\<lambda>k. (c_str k, content fs k)) (filter (added lz) rest)"
    by blast
  have 1: "\<forall>w. add_files lz fs (k # rest) (za, w) =
                Inr (za', w\<lparr>outs := outs w @ map (\<lambda>k. Adding_file k (length (content fs k))) (k # rest),
                            errs := errs w @ concat (map (entry_report lz) (k # rest))\<rparr>)"
    by (simp only: st r) simp
  have 2: "set (map ze_name za') = set (map ze_name za) \<union> c_str ` {x \<in> set (k # rest). added lz x}"
  proof (cases "added lz k")
    case True
    with n n1 show ?thesis by auto
  next
    case False
    with n no show ?thesis by auto
  qed
  have 3: "map name_data za' = map name_data za @
              map (\<lambda>k. (c_str k, content fs k)) (filter (added lz) (k # rest))"
    if h: "distinct (map c_str (k # rest)) \<and> c_str ` set (k # rest) \<inter> set (map ze_name za) = {}"
  proof (cases "added lz k")
    case True
    from h have fresh: "c_str k \<notin> set (map ze_name za)" by auto
    from h True n1 have "distinct (map c_str rest) \<and> c_str ` set rest \<inter> set (map ze_name za1) = {}"
      by auto
    from d [OF this] d1 [OF True fresh] True show ?thesis by simp
  next
    case False
    from h False no have "distinct (map c_str rest) \<and> c_str ` set rest \<inter> set (map ze_name za1) = {}"
      by auto
    from d [OF this] False no show ?thesis by simp
  qed
  from 1 2 3 show ?case by blast
qed


subsection \<open>The five ways through writeZip\<close>

lemma built_archive_eq:
  "add_files lz (files p) (orderedFileNames p) ([], w) =
     Inr (built_archive lz p,
          w\<lparr>outs := outs w @ map (\<lambda>k. Adding_file k (length (content (files p) k))) (orderedFileNames p),
             errs := errs w @ concat (map (entry_report lz) (orderedFileNames p))\<rparr>)"
proof -
  from add_files_result [of lz "files p" "orderedFileNames p" "[]"]
  obtain za' where r: "\<And>w. add_files lz (files p) (orderedFileNames p) ([], w) =
     Inr (za', w\<lparr>outs := outs w @ map (\<lambda>k. Adding_file k (length (content (files p) k))) (orderedFileNames p),
             errs := errs w @ concat (map (entry_report lz) (orderedFileNames p))\<rparr>)"
    by blast
  have "built_archive lz p = za'" by (simp add: built_archive_def r)
  with r show ?thesis by simp
qed

lemma writeZip_paths:
  assumes "addManifest QSSC_VERSION p = Inr p1"
  shows "writeZip lz QSSC_VERSION p w =
     Inr ((), p1,
       if \<not> archive_source_ok lz
       then w\<lparr>outs := outs w @ [Writing_zip_to_stream],
              errs := errs w @ [Cant_create_zip_source_for_new_archive]\<rparr>
       else if \<not> open_ok lz
       then w\<lparr>outs := outs w @ [Writing_zip_to_stream],
              errs := errs w @ [Cant_create_open_an_archive]\<rparr>
       else
         let za = built_archive lz p1;
             names = orderedFileNames p1;
             os = outs w @ [Writing_zip_to_stream, Zip_buffer_created]
                    @ map (\<lambda>k. Adding_file k (length (content (files p1) k))) names;
             es = errs w @ concat (map (entry_report lz) names);
             sz = length (archive_bytes lz za)
         in if \<not> close_ok lz za
            then w\<lparr>outs := os, errs := es @ [Problem_closing_new_zip_archive]\<rparr>
            else if \<not> malloc_ok lz sz
            then w\<lparr>outs := os @ [Zip_buffer_is_of_size sz],
                   errs := es @ [Unable_to_allocate_output_buffer]\<rparr>
            else w\<lparr>sink := sink w @ archive_bytes lz za,
                   outs := os @ [Zip_buffer_is_of_size sz], errs := es\<rparr>)"
  by (simp add: writeZip_def assms and_then_def Let_def built_archive_eq to_outs_def to_errs_def)

lemma writeZip_throws:
  "addManifest QSSC_VERSION p = Inl e \<Longrightarrow> writeZip lz QSSC_VERSION p w = Inl e"
  by (simp add: writeZip_def and_then_def)


subsection \<open>Failures of single entries\<close>

text \<open>
  Claim C6: the loop over the names always runs to its end, whatever fails for single
  entries: it visits every name (one \<^verbatim>\<open>Adding file\<close> message each), writes nothing to the
  sink, and reports each entry that could not be wrapped or added by one message with its
  name. The names in the archive it leaves are exactly the names of the entries that were
  wrapped and added. When the names are distinct as C strings, the archive holds, in order,
  exactly those entries with their contents, so an entry that failed is left out and every
  other one is there.
\<close>

theorem add_files_entry_failure_not_fatal:
  "\<exists>za'. (\<forall>w. add_files lz fs names ([], w) =
                Inr (za', w\<lparr>outs := outs w @ map (\<lambda>k. Adding_file k (length (content fs k))) names,
                            errs := errs w @ concat (map (entry_report lz) names)\<rparr>)) \<and>
         set (map ze_name za') = c_str ` {k \<in> set names. added lz k} \<and>
         (distinct (map c_str names) \<longrightarrow>
            map name_data za' = map (\<lambda>k. (c_str k, content fs k)) (filter (added lz) names))"
  using add_files_result [of lz fs names "[]"] by simp

text \<open>Three entries of which \<^verbatim>\<open>out/b.bin\<close> cannot be wrapped.\<close>

theorem add_files_entry_failure_not_fatal_witness:
  "let lz = \<lparr>archive_source_ok = True, open_ok = True,
              file_source_ok = (\<lambda>k. k \<noteq> ''out/b.bin''), file_add_ok = (\<lambda>k. True),
              new_opsys = ZIP_OPSYS_UNIX, new_attributes = push_bit 16 0x81B6,
              close_ok = (\<lambda>za. True), archive_bytes = (\<lambda>za. ''PK''), malloc_ok = (\<lambda>n. True)\<rparr>;
       fs = [(''out/a.txt'', ''A''), (''out/b.bin'', ''B''), (''out/c.txt'', ''C'')];
       names = [''out/a.txt'', ''out/b.bin'', ''out/c.txt''];
       w = \<lparr>sink = [], outs = [], errs = []\<rparr>
   in distinct (map c_str names) \<and>
      (\<exists>za' w'. add_files lz fs names ([], w) = Inr (za', w') \<and>
          sink w' = [] \<and>
          errs w' = [Cant_create_zip_source_for ''out/b.bin''] \<and>
          map name_data za' = [(''out/a.txt'', ''A''), (''out/c.txt'', ''C'')])"
proof -
  let ?lz = "\<lparr>archive_source_ok = True, open_ok = True,
              file_source_ok = (\<lambda>k. k \<noteq> ''out/b.bin''), file_add_ok = (\<lambda>k. True),
              new_opsys = ZIP_OPSYS_UNIX, new_attributes = push_bit 16 0x81B6,
              close_ok = (\<lambda>za. True), archive_bytes = (\<lambda>za. ''PK''), malloc_ok = (\<lambda>n. True)\<rparr>"
  let ?fs = "[(''out/a.txt'', ''A''), (''out/b.bin'', ''B''), (''out/c.txt'', ''C'')]"
  let ?names = "[''out/a.txt'', ''out/b.bin'', ''out/c.txt'']"
  let ?w = "\<lparr>sink = [], outs = [], errs = []\<rparr>"
  have d: "distinct (map c_str ?names)" by (simp add: c_str_def)
  from add_files_entry_failure_not_fatal [of ?lz ?fs ?names]
  obtain za' where
    r: "add_files ?lz ?fs ?names ([], ?w) =
          Inr (za', ?w\<lparr>outs := outs ?w @ map (\<lambda>k. Adding_file k (length (content ?fs k))) ?names,
                      errs := errs ?w @ concat (map (entry_report ?lz) ?names)\<rparr>)"
    and n: "distinct (map c_str ?names) \<longrightarrow>
            map name_data za' = map (\<lambda>k. (c_str k, content ?fs k)) (filter (added ?lz) ?names)"
    by blast
  from n d have "map name_data za' = map (\<lambda>k. (c_str k, content ?fs k)) (filter (added ?lz) ?names)"
    by blast
  then have nd: "map name_data za' = [(''out/a.txt'', ''A''), (''out/c.txt'', ''C'')]"
    by (simp add: added_def c_str_def content_def)
  have e: "concat (map (entry_report ?lz) ?names) = [Cant_create_zip_source_for ''out/b.bin'']"
    by (simp add: entry_report_def)
  show ?thesis unfolding Let_def
    using d r nd e by (simp del: add_files.simps)
qed

subsection \<open>Fatal failures and the sink\<close>

text \<open>
  Claim C3: when \<^verbatim>\<open>addManifest\<close> throws, \<^verbatim>\<open>writeZip\<close> ends with that exception before
  anything is written. Otherwise it returns, and the sink is as before unless creating the
  archive source, opening the archive, closing it and allocating the output buffer all
  succeed; only then the bytes of the archive are appended to the sink.
\<close>

theorem writeZip_fatal_failure_writes_nothing:
  "case addManifest QSSC_VERSION p of
     Inl e \<Rightarrow> writeZip lz QSSC_VERSION p w = Inl e
   | Inr p1 \<Rightarrow>
       \<exists>w'. writeZip lz QSSC_VERSION p w = Inr ((), p1, w') \<and>
         (if archive_source_ok lz \<and> open_ok lz \<and> close_ok lz (built_archive lz p1) \<and>
             malloc_ok lz (length (archive_bytes lz (built_archive lz p1)))
          then sink w' = sink w @ archive_bytes lz (built_archive lz p1)
          else sink w' = sink w)"
proof (cases "addManifest QSSC_VERSION p")
  case (Inl e)
  then show ?thesis by (simp add: writeZip_throws)
next
  case (Inr p1)
  show ?thesis unfolding Inr sum.case
    by (rule exI, rule conjI, rule writeZip_paths [OF Inr]) (simp add: Let_def)
qed

text \<open>A run in which closing the archive fails.\<close>

theorem writeZip_fatal_failure_writes_nothing_witness:
  "let lz = \<lparr>archive_source_ok = True, open_ok = True,
              file_source_ok = (\<lambda>k. True), file_add_ok = (\<lambda>k. True),
              new_opsys = ZIP_OPSYS_UNIX, new_attributes = push_bit 16 0x81B6,
              close_ok = (\<lambda>za. False), archive_bytes = (\<lambda>za. ''PK''), malloc_ok = (\<lambda>n. True)\<rparr>;
       p = \<lparr>prefix = ''out/'', files = [(''out/a.txt'', ''hello'')]\<rparr>;
       w = \<lparr>sink = ''earlier output'', outs = [], errs = []\<rparr>
   in \<exists>p1 w'. addManifest ''1.0'' p = Inr p1 \<and> \<not> close_ok lz (built_archive lz p1) \<and>
        writeZip lz ''1.0'' p w = Inr ((), p1, w') \<and> sink w' = ''earlier output''"
proof -
  let ?lz = "\<lparr>archive_source_ok = True, open_ok = True,
              file_source_ok = (\<lambda>k. True), file_add_ok = (\<lambda>k. True),
              new_opsys = ZIP_OPSYS_UNIX, new_attributes = push_bit 16 0x81B6,
              close_ok = (\<lambda>za. False), archive_bytes = (\<lambda>za. ''PK''), malloc_ok = (\<lambda>n. True)\<rparr>"
  let ?p = "\<lparr>prefix = ''out/'', files = [(''out/a.txt'', ''hello'')]\<rparr>"
  let ?w = "\<lparr>sink = ''earlier output'', outs = [], errs = []\<rparr>"
  have h1: "dump_escaped (prefix ?p) = Inr ''out/''" by (simp add: escape_ascii_def and_then_def)
  have h2: "dump_escaped ''1.0'' = Inr ''1.0''" by (simp add: escape_ascii_def and_then_def)
  from addManifest_eq [OF h1 h2] obtain p1 where a: "addManifest ''1.0'' ?p = Inr p1" by blast
  from writeZip_fatal_failure_writes_nothing
    [where QSSC_VERSION = "''1.0''" and p = ?p and lz = ?lz and w = ?w]
  obtain w' where "writeZip ?lz ''1.0'' ?p ?w = Inr ((), p1, w')" and "sink w' = sink ?w"
    unfolding a sum.case by auto
  with a show ?thesis unfolding Let_def by auto
qed

subsection \<open>What the caller sees\<close>

text \<open>
  Claim C8 asks that the caller can tell from the value returned whether the build
  succeeded. \<^verbatim>\<open>writeZip\<close> is \<^verbatim>\<open>void\<close>: a run that writes the archive and a run in which
  the archive source cannot be created return the same value.
\<close>

theorem writeZip_result_value_counterexample:
  "let good = \<lparr>archive_source_ok = True, open_ok = True,
                file_source_ok = (\<lambda>k. True), file_add_ok = (\<lambda>k. True),
                new_opsys = ZIP_OPSYS_UNIX, new_attributes = push_bit 16 0x81B6,
                close_ok = (\<lambda>za. True), archive_bytes = (\<lambda>za. ''PK''), malloc_ok = (\<lambda>n. True)\<rparr>;
       bad = good\<lparr>archive_source_ok := False\<rparr>;
       p = \<lparr>prefix = ''out/'', files = [(''out/a.txt'', ''hello'')]\<rparr>;
       w = \<lparr>sink = [], outs = [], errs = []\<rparr>
   in (case writeZip good ''1.0'' p w of
         Inr (r, p', w') \<Rightarrow> r = () \<and> sink w' = ''PK'' \<and> errs w' = []
       | Inl e \<Rightarrow> False) \<and>
      (case writeZip bad ''1.0'' p w of
         Inr (r, p', w') \<Rightarrow>
           r = () \<and> sink w' = [] \<and> errs w' = [Cant_create_zip_source_for_new_archive]
       | Inl e \<Rightarrow> False) \<and>
      map_sum id fst (writeZip good ''1.0'' p w) = map_sum id fst (writeZip bad ''1.0'' p w)"
proof -
  let ?p = "\<lparr>prefix = ''out/'', files = [(''out/a.txt'', ''hello'')]\<rparr>"
  have h1: "dump_escaped (prefix ?p) = Inr ''out/''" by (simp add: escape_ascii_def and_then_def)
  have h2: "dump_escaped ''1.0'' = Inr ''1.0''" by (simp add: escape_ascii_def and_then_def)
  from addManifest_eq [OF h1 h2] obtain p1 where a: "addManifest ''1.0'' ?p = Inr p1" by blast
  have o: "concat (map (entry_report lz) ns) = []"
    if "file_source_ok lz = (\<lambda>k. True)" "file_add_ok lz = (\<lambda>k. True)" for lz ns
    using that by (induction ns) (simp_all add: entry_report_def)
  show ?thesis unfolding Let_def
    by (simp add: writeZip_paths [OF a] Let_def o)
qed

text \<open>
  Claim C8, amended: \<^verbatim>\<open>writeZip\<close> returns no value. When the manifest can be serialized
  the call returns, and the outcome shows in the streams only: after a fatal failure the
  last message on the error stream is the message of the stage that failed and the sink is
  as before; after a successful build the error stream holds the reports of single entries
  only and the sink has received the archive.
\<close>

theorem writeZip_outcome_in_streams:
  "case addManifest QSSC_VERSION p of
     Inl e \<Rightarrow> writeZip lz QSSC_VERSION p w = Inl e
   | Inr p1 \<Rightarrow>
       \<exists>w'. writeZip lz QSSC_VERSION p w = Inr ((), p1, w') \<and>
         (let za = built_archive lz p1;
              reports = concat (map (entry_report lz) (orderedFileNames p1))
          in if \<not> archive_source_ok lz
             then errs w' = errs w @ [Cant_create_zip_source_for_new_archive] \<and> sink w' = sink w
             else if \<not> open_ok lz
             then errs w' = errs w @ [Cant_create_open_an_archive] \<and> sink w' = sink w
             else if \<not> close_ok lz za
             then errs w' = errs w @ reports @ [Problem_closing_new_zip_archive] \<and> sink w' = sink w
             else if \<not> malloc_ok lz (length (archive_bytes lz za))
             then errs w' = errs w @ reports @ [Unable_to_allocate_output_buffer] \<and> sink w' = sink w
             else errs w' = errs w @ reports \<and> sink w' = sink w @ archive_bytes lz za)"
proof (cases "addManifest QSSC_VERSION p")
  case (Inl e)
  then show ?thesis by (simp add: writeZip_throws)
next
  case (Inr p1)
  show ?thesis unfolding Inr sum.case
    by (rule exI, rule conjI, rule writeZip_paths [OF Inr]) (simp add: Let_def)
qed

text \<open>A run in which the archive cannot be opened.\<close>

theorem writeZip_outcome_in_streams_witness:
  "let lz = \<lparr>archive_source_ok = True, open_ok = False,
              file_source_ok = (\<lambda>k. True), file_add_ok = (\<lambda>k. True),
              new_opsys = ZIP_OPSYS_UNIX, new_attributes = push_bit 16 0x81B6,
              close_ok = (\<lambda>za. True), archive_bytes = (\<lambda>za. ''PK''), malloc_ok = (\<lambda>n. True)\<rparr>;
       p = \<lparr>prefix = ''out/'', files = [(''out/a.txt'', ''hello'')]\<rparr>;
       w = \<lparr>sink = [], outs = [], errs = []\<rparr>
   in \<exists>p1 w'. addManifest ''1.0'' p = Inr p1 \<and>
        writeZip lz ''1.0'' p w = Inr ((), p1, w') \<and>
        errs w' = [Cant_create_open_an_archive] \<and> sink w' = []"
proof -
  let ?lz = "\<lparr>archive_source_ok = True, open_ok = False,
              file_source_ok = (\<lambda>k. True), file_add_ok = (\<lambda>k. True),
              new_opsys = ZIP_OPSYS_UNIX, new_attributes = push_bit 16 0x81B6,
              close_ok = (\<lambda>za. True), archive_bytes = (\<lambda>za. ''PK''), malloc_ok = (\<lambda>n. True)\<rparr>"
  let ?p = "\<lparr>prefix = ''out/'', files = [(''out/a.txt'', ''hello'')]\<rparr>"
  let ?w = "\<lparr>sink = [], outs = [], errs = []\<rparr>"
  have h1: "dump_escaped (prefix ?p) = Inr ''out/''" by (simp add: escape_ascii_def and_then_def)
  have h2: "dump_escaped ''1.0'' = Inr ''1.0''" by (simp add: escape_ascii_def and_then_def)
  from addManifest_eq [OF h1 h2] obtain p1 where a: "addManifest ''1.0'' ?p = Inr p1" by blast
  from writeZip_outcome_in_streams
    [where QSSC_VERSION = "''1.0''" and p = ?p and lz = ?lz and w = ?w]
  obtain w' where "writeZip ?lz ''1.0'' ?p ?w = Inr ((), p1, w')"
    and "errs w' = [Cant_create_open_an_archive]" and "sink w' = []"
    unfolding a sum.case by (auto simp: Let_def)
  with a show ?thesis unfolding Let_def by auto
qed

end
